theory Spec2Isabelle
  imports Complex_Main
begin

section \<open>JavaScript strings and the regular-expression fragments the sources use\<close>

text \<open>
  A JavaScript string is modelled as a \<^typ>\<open>string\<close>: every \<^typ>\<open>char\<close> stands for one
  UTF-16 code unit, restricted to the code units below 256.  In that range the class
  \<open>\s\<close> of a JavaScript regular expression (and the characters removed by \<open>trim\<close>) are
  TAB, LF, VT, FF, CR, SPACE and NBSP; \<open>\d\<close> is \<open>0-9\<close>; \<open>\w\<close> is \<open>[A-Za-z0-9_]\<close>.
\<close>

definition isSpace :: "char \<Rightarrow> bool" where
  "isSpace c = (c = CHR 0x09 \<or> c = CHR 0x0A \<or> c = CHR 0x0B \<or> c = CHR 0x0C \<or> c = CHR 0x0D
                \<or> c = CHR 0x20 \<or> c = CHR 0xA0)"

definition isDigit :: "char \<Rightarrow> bool" where
  "isDigit c = (c \<in> set ''0123456789'')"

definition isUpper :: "char \<Rightarrow> bool" where
  "isUpper c = (c \<in> set ''ABCDEFGHIJKLMNOPQRSTUVWXYZ'')"

definition isLower :: "char \<Rightarrow> bool" where
  "isLower c = (c \<in> set ''abcdefghijklmnopqrstuvwxyz'')"

definition isLetter :: "char \<Rightarrow> bool" where
  "isLetter c = (isUpper c \<or> isLower c)"

definition isWord :: "char \<Rightarrow> bool" where
  "isWord c = (isLetter c \<or> isDigit c \<or> c = CHR ''_'')"

text \<open>\<open>String.prototype.startsWith\<close>; also a literal regular expression anchored at the
  current position.\<close>

fun startsWith :: "string \<Rightarrow> string \<Rightarrow> bool" where
  "startsWith [] s = True"
| "startsWith (p # ps) [] = False"
| "startsWith (p # ps) (c # cs) = (p = c \<and> startsWith ps cs)"

text \<open>\<open>String.prototype.trim\<close>.\<close>

definition trimEnd :: "string \<Rightarrow> string" where
  "trimEnd s = rev (dropWhile isSpace (rev s))"

definition trim :: "string \<Rightarrow> string" where
  "trim s = trimEnd (dropWhile isSpace s)"

text \<open>\<open>s.replace(/\s+/g, ' ')\<close>: every maximal run of white space becomes one space.\<close>

function collapseWs :: "string \<Rightarrow> string" where
  "collapseWs [] = []"
| "collapseWs (c # cs) =
     (if isSpace c then CHR '' '' # collapseWs (dropWhile isSpace cs) else c # collapseWs cs)"
  by pat_completeness auto
termination
  by (relation "measure length") (auto simp: less_Suc_eq_le length_dropWhile_le)

text \<open>\<open>s.replace(/lit/g, rep)\<close> for a literal, non-empty pattern: matches are found from the
  left and do not overlap; the replacement text is not scanned again.\<close>

function replaceAll :: "string \<Rightarrow> string \<Rightarrow> string \<Rightarrow> string" where
  "replaceAll p r [] = []"
| "replaceAll p r (c # cs) =
     (if p \<noteq> [] \<and> startsWith p (c # cs) then r @ replaceAll p r (drop (length p - 1) cs)
      else c # replaceAll p r cs)"
  by pat_completeness auto
termination
  by (relation "measure (\<lambda>(p, r, s). length s)") auto

section \<open>cleanAbstract (doiLookup.js and academicSearch.js hold the same function)\<close>

text \<open>
  The tail \<open>[^>]+>\<close> of the three tag patterns, anchored: at least one character other than
  \<open>>\<close>, then \<open>>\<close>.  The greedy \<open>[^>]+\<close> stops at the first \<open>>\<close>, and giving characters back
  cannot help, so the match is decided without backtracking.  The result is the text after
  the closing \<open>>\<close>.
\<close>

definition tagEnd :: "string \<Rightarrow> string option" where
  "tagEnd s =
     (let body = takeWhile (\<lambda>c. c \<noteq> CHR ''>'') s; rest = dropWhile (\<lambda>c. c \<noteq> CHR ''>'') s
      in if body \<noteq> [] \<and> rest \<noteq> [] then Some (tl rest) else None)"

text \<open>A tag pattern \<open>open[^>]+>\<close> anchored at the current position, for a literal \<open>open\<close>.\<close>

definition tagAt :: "string \<Rightarrow> string \<Rightarrow> string option" where
  "tagAt opn s = (if startsWith opn s then tagEnd (drop (length opn) s) else None)"

lemma tagEnd_shorter: "tagEnd s = Some r \<Longrightarrow> length r < length s"
proof -
  assume a: "tagEnd s = Some r"
  let ?d = "dropWhile (\<lambda>c. c \<noteq> CHR ''>'') s"
  from a have d: "?d \<noteq> []" and r: "r = tl ?d"
    by (auto simp: tagEnd_def Let_def split: if_splits)
  have "length ?d \<le> length s"
    by (rule length_dropWhile_le)
  moreover from d have "length (tl ?d) < length ?d"
    by (cases ?d) auto
  ultimately show ?thesis
    using r by simp
qed

lemma tagAt_shorter: "tagAt opn s = Some r \<Longrightarrow> length r < length s"
proof -
  assume "tagAt opn s = Some r"
  then have "tagEnd (drop (length opn) s) = Some r"
    by (simp add: tagAt_def split: if_splits)
  then have "length r < length (drop (length opn) s)"
    by (rule tagEnd_shorter)
  then show ?thesis
    by simp
qed

text \<open>\<open>s.replace(/open[^>]+>/g, '')\<close>: a match is dropped and the scan goes on after it.\<close>

function removeTags :: "string \<Rightarrow> string \<Rightarrow> string" where
  "removeTags opn [] = []"
| "removeTags opn (c # cs) =
     (case tagAt opn (c # cs) of
        Some rest \<Rightarrow> removeTags opn rest
      | None \<Rightarrow> c # removeTags opn cs)"
  by pat_completeness auto
termination
proof (relation "measure (\<lambda>(opn, s). length s)")
  show "wf (measure (\<lambda>(opn, s). length s))"
    by simp
next
  fix opn :: string and c cs rest
  assume "tagAt opn (c # cs) = Some rest"
  then have "length rest < length (c # cs)"
    by (rule tagAt_shorter)
  then show "((opn, rest), (opn, c # cs)) \<in> measure (\<lambda>(opn, s). length s)"
    by simp
next
  fix opn :: string and c cs
  show "((opn, cs), (opn, c # cs)) \<in> measure (\<lambda>(opn, s). length s)"
    by simp
qed

text \<open>
  \<^verbatim>\<open>
  function cleanAbstract(text) {
      if (!text) return '';
      let cleaned = text.replace(/<jats:[^>]+>/g, '');
      cleaned = cleaned.replace(/<\/jats:[^>]+>/g, '');
      cleaned = cleaned.replace(/<[^>]+>/g, '');
      cleaned = cleaned.replace(/&lt;/g, '<');
      cleaned = cleaned.replace(/&gt;/g, '>');
      cleaned = cleaned.replace(/&amp;/g, '&');
      cleaned = cleaned.replace(/&quot;/g, '"');
      cleaned = cleaned.replace(/&apos;/g, "'");
      cleaned = cleaned.replace(/\s+/g, ' ').trim();
      return cleaned;
  }
  \<close>
  The argument is \<open>None\<close> for \<open>undefined\<close> or \<open>null\<close>.
\<close>

definition decodeEntities :: "string \<Rightarrow> string" where
  "decodeEntities s =
     replaceAll ''&apos;'' [CHR 0x27]
       (replaceAll ''&quot;'' [CHR 0x22]
         (replaceAll ''&amp;'' ''&''
           (replaceAll ''&gt;'' ''>''
             (replaceAll ''&lt;'' ''<'' s))))"

fun cleanAbstract :: "string option \<Rightarrow> string" where
  "cleanAbstract None = []"
| "cleanAbstract (Some text) =
     (if text = [] then []
      else trim (collapseWs (decodeEntities
             (removeTags ''<'' (removeTags ''</jats:'' (removeTags ''<jats:'' text))))))"

subsection \<open>Idempotence of cleanAbstract\<close>

text \<open>\<open>noTag s\<close>: the pattern \<open><[^>]+>\<close> matches nowhere in \<open>s\<close>.  \<open>wsNorm s\<close>: every white-space
  character of \<open>s\<close> is a single space with no white space after it.\<close>

fun noTag :: "string \<Rightarrow> bool" where
  "noTag [] = True"
| "noTag (c # cs) = ((c = CHR ''<'' \<longrightarrow> tagEnd cs = None) \<and> noTag cs)"

fun wsNorm :: "string \<Rightarrow> bool" where
  "wsNorm [] = True"
| "wsNorm (c # cs) =
     ((isSpace c \<longrightarrow> c = CHR '' '' \<and> (cs = [] \<or> \<not> isSpace (hd cs))) \<and> wsNorm cs)"

lemma tagEnd_None_iff:
  "tagEnd s = None \<longleftrightarrow> (s = [] \<or> hd s = CHR ''>'' \<or> CHR ''>'' \<notin> set s)"
proof (cases s)
  case Nil
  then show ?thesis by (simp add: tagEnd_def)
next
  case (Cons a as)
  have "dropWhile (\<lambda>c. c \<noteq> CHR ''>'') s = [] \<longleftrightarrow> CHR ''>'' \<notin> set s"
    by (auto simp: dropWhile_eq_Nil_conv)
  with Cons show ?thesis
    by (auto simp: tagEnd_def Let_def)
qed

lemma set_tl_subset: "set (tl xs) \<subseteq> set xs"
  by (cases xs) auto

lemma tagEnd_set: "tagEnd s = Some r \<Longrightarrow> set r \<subseteq> set s"
proof -
  assume "tagEnd s = Some r"
  then have r: "r = tl (dropWhile (\<lambda>c. c \<noteq> CHR ''>'') s)"
    by (auto simp: tagEnd_def Let_def split: if_splits)
  have "set r \<subseteq> set (dropWhile (\<lambda>c. c \<noteq> CHR ''>'') s)"
    unfolding r by (rule set_tl_subset)
  moreover have "set (dropWhile (\<lambda>c. c \<noteq> CHR ''>'') s) \<subseteq> set s"
    by (auto dest: set_dropWhileD)
  ultimately show ?thesis by blast
qed

lemma tagAt_set: "tagAt opn s = Some r \<Longrightarrow> set r \<subseteq> set s"
proof -
  assume "tagAt opn s = Some r"
  then have "tagEnd (drop (length opn) s) = Some r"
    by (simp add: tagAt_def split: if_splits)
  then have "set r \<subseteq> set (drop (length opn) s)"
    by (rule tagEnd_set)
  moreover have "set (drop (length opn) s) \<subseteq> set s"
    by (rule set_drop_subset)
  ultimately show ?thesis
    by blast
qed

lemma set_removeTags: "set (removeTags opn s) \<subseteq> set s"
proof (induction opn s rule: removeTags.induct)
  case (1 opn)
  then show ?case by simp
next
  case (2 opn c cs)
  show ?case
  proof (cases "tagAt opn (c # cs)")
    case None
    with 2 show ?thesis by auto
  next
    case (Some rest)
    with 2 have "set (removeTags opn rest) \<subseteq> set rest" by simp
    moreover from Some have "set rest \<subseteq> set (c # cs)" by (rule tagAt_set)
    ultimately show ?thesis using Some by auto
  qed
qed

lemma startsWith_hd: "startsWith p s \<Longrightarrow> p \<noteq> [] \<Longrightarrow> s \<noteq> [] \<and> hd s = hd p"
  by (cases p; cases s) auto

lemma replaceAll_absent: "p \<noteq> [] \<Longrightarrow> hd p \<notin> set s \<Longrightarrow> replaceAll p r s = s"
proof (induction s)
  case Nil
  then show ?case by simp
next
  case (Cons c cs)
  then have "\<not> startsWith p (c # cs)"
    using startsWith_hd[of p "c # cs"] by auto
  with Cons show ?case by simp
qed

lemma decodeEntities_absent: "CHR ''&'' \<notin> set s \<Longrightarrow> decodeEntities s = s"
  by (simp add: decodeEntities_def replaceAll_absent)

lemma tagAt_lt: "tagAt ''<'' (c # cs) = (if c = CHR ''<'' then tagEnd cs else None)"
  by (simp add: tagAt_def)

lemma noTag_removeTags: "noTag (removeTags ''<'' s)"
proof (induction "''<''" s rule: removeTags.induct)
  case 1
  then show ?case by simp
next
  case (2 c cs)
  show ?case
  proof (cases "tagAt ''<'' (c # cs)")
    case (Some rest)
    with 2 show ?thesis by simp
  next
    case None
    with 2 have ih: "noTag (removeTags ''<'' cs)" by simp
    have "tagEnd (removeTags ''<'' cs) = None" if c: "c = CHR ''<''"
    proof -
      from None c have "tagEnd cs = None" by (simp add: tagAt_lt)
      then have "cs = [] \<or> (cs \<noteq> [] \<and> hd cs = CHR ''>'') \<or> CHR ''>'' \<notin> set cs"
        unfolding tagEnd_None_iff by blast
      then consider "cs = []" | "cs \<noteq> []" "hd cs = CHR ''>''" | "CHR ''>'' \<notin> set cs"
        by blast
      then show ?thesis
      proof cases
        case 1
        then show ?thesis by (simp add: tagEnd_None_iff)
      next
        case 2
        then obtain ds where "cs = CHR ''>'' # ds" by (cases cs) auto
        then show ?thesis by (simp add: tagEnd_None_iff tagAt_def)
      next
        case 3
        then have "CHR ''>'' \<notin> set (removeTags ''<'' cs)"
          using set_removeTags[of "''<''" cs] by auto
        then show ?thesis by (simp add: tagEnd_None_iff)
      qed
    qed
    with ih None show ?thesis by simp
  qed
qed

lemma tagAt_open_noTag:
  assumes "noTag s" and "opn \<noteq> []" and "hd opn = CHR ''<''" and "CHR ''>'' \<notin> set opn"
  shows "tagAt opn s = None"
proof (rule ccontr)
  assume "tagAt opn s \<noteq> None"
  then obtain r where r: "tagAt opn s = Some r" by auto
  then have sw: "startsWith opn s" and te: "tagEnd (drop (length opn) s) = Some r"
    by (auto simp: tagAt_def split: if_splits)
  from sw assms obtain cs where s: "s = CHR ''<'' # cs"
    using startsWith_hd[of opn s] by (cases s) auto
  obtain o' where o: "opn = CHR ''<'' # o'" using assms by (cases opn) auto
  from sw s o have sw': "startsWith o' cs" by simp
  from te s o have te': "tagEnd (drop (length o') cs) = Some r" by simp
  from assms(1) s have n: "tagEnd cs = None" by simp
  from te' have "tagEnd (drop (length o') cs) \<noteq> None" by simp
  then have d: "drop (length o') cs \<noteq> []" "hd (drop (length o') cs) \<noteq> CHR ''>''"
      "CHR ''>'' \<in> set (drop (length o') cs)"
    by (auto simp: tagEnd_None_iff)
  then have "CHR ''>'' \<in> set cs" by (meson in_set_dropD)
  moreover have "cs \<noteq> []" using d by auto
  moreover have "hd cs \<noteq> CHR ''>''"
  proof (cases o')
    case Nil
    with d show ?thesis by simp
  next
    case (Cons a as)
    with sw' \<open>cs \<noteq> []\<close> have "hd cs = a" by (cases cs) auto
    moreover from o Cons assms(4) have "a \<noteq> CHR ''>''" by auto
    ultimately show ?thesis by simp
  qed
  ultimately show False using n by (auto simp: tagEnd_None_iff)
qed


lemma removeTags_noTag:
  assumes "opn \<noteq> []" and "hd opn = CHR ''<''" and "CHR ''>'' \<notin> set opn"
  shows "noTag s \<Longrightarrow> removeTags opn s = s"
proof (induction s)
  case Nil
  then show ?case by simp
next
  case (Cons c cs)
  from Cons.prems have "tagAt opn (c # cs) = None"
    using assms by (rule tagAt_open_noTag)
  moreover from Cons have "removeTags opn cs = cs" by simp
  ultimately show ?case by simp
qed

lemma noTag_append: "noTag (xs @ ys) \<Longrightarrow> noTag xs"
proof (induction xs)
  case Nil
  then show ?case by simp
next
  case (Cons c cs)
  have "tagEnd cs = None" if "tagEnd (cs @ ys) = None"
    using that unfolding tagEnd_None_iff by (cases cs) auto
  with Cons show ?case by auto
qed

lemma noTag_dropWhile: "noTag s \<Longrightarrow> noTag (dropWhile P s)"
  by (induction s) auto

lemma trimEnd_prefix: "s = trimEnd s @ rev (takeWhile isSpace (rev s))"
proof -
  have "trimEnd s @ rev (takeWhile isSpace (rev s))
        = rev (takeWhile isSpace (rev s) @ dropWhile isSpace (rev s))"
    unfolding trimEnd_def by (rule rev_append[symmetric])
  also have "\<dots> = s"
    unfolding takeWhile_dropWhile_id by (rule rev_rev_ident)
  finally show ?thesis by (rule sym)
qed

lemma noTag_trim: "noTag s \<Longrightarrow> noTag (trim s)"
proof -
  assume "noTag s"
  then have "noTag (dropWhile isSpace s)" by (rule noTag_dropWhile)
  then have "noTag (trimEnd (dropWhile isSpace s) @ rev (takeWhile isSpace (rev (dropWhile isSpace s))))"
    using trimEnd_prefix[of "dropWhile isSpace s"] by simp
  then show ?thesis
    unfolding trim_def by (rule noTag_append)
qed

lemma set_collapseWs: "set (collapseWs s) \<subseteq> insert (CHR '' '') (set s)"
proof (induction s rule: collapseWs.induct)
  case 1
  then show ?case by simp
next
  case (2 c cs)
  show ?case
  proof (cases "isSpace c")
    case True
    with 2 have "set (collapseWs (dropWhile isSpace cs)) \<subseteq> insert (CHR '' '') (set (dropWhile isSpace cs))"
      by simp
    moreover have "set (dropWhile isSpace cs) \<subseteq> set cs"
      by (auto dest: set_dropWhileD)
    ultimately show ?thesis using True by auto
  next
    case False
    with 2 show ?thesis by auto
  qed
qed

lemma tagEnd_collapseWs: "tagEnd cs = None \<Longrightarrow> tagEnd (collapseWs cs) = None"
proof -
  assume "tagEnd cs = None"
  then have "cs = [] \<or> (cs \<noteq> [] \<and> hd cs = CHR ''>'') \<or> CHR ''>'' \<notin> set cs"
    unfolding tagEnd_None_iff by blast
  then consider "cs = []" | "cs \<noteq> []" "hd cs = CHR ''>''" | "CHR ''>'' \<notin> set cs"
    by blast
  then show ?thesis
  proof cases
    case 1
    then show ?thesis by (simp add: tagEnd_None_iff)
  next
    case 2
    then obtain ds where "cs = CHR ''>'' # ds" by (cases cs) auto
    then show ?thesis by (simp add: tagEnd_None_iff isSpace_def)
  next
    case 3
    then have "CHR ''>'' \<notin> set (collapseWs cs)"
      using set_collapseWs[of cs] by auto
    then show ?thesis by (simp add: tagEnd_None_iff)
  qed
qed

lemma noTag_collapseWs: "noTag s \<Longrightarrow> noTag (collapseWs s)"
proof (induction s rule: collapseWs.induct)
  case 1
  then show ?case by simp
next
  case (2 c cs)
  show ?case
  proof (cases "isSpace c")
    case True
    from 2 have "noTag cs" by simp
    then have "noTag (dropWhile isSpace cs)" by (rule noTag_dropWhile)
    with 2 True have "noTag (collapseWs (dropWhile isSpace cs))" by simp
    with True show ?thesis by simp
  next
    case False
    from 2 have "noTag cs" by simp
    with 2 False have ih: "noTag (collapseWs cs)" by simp
    have "tagEnd (collapseWs cs) = None" if "c = CHR ''<''"
      using that 2(3) by (simp add: tagEnd_collapseWs)
    with ih False show ?thesis by simp
  qed
qed

lemma wsNorm_collapseWs: "wsNorm (collapseWs s)"
proof (induction s rule: collapseWs.induct)
  case 1
  then show ?case by simp
next
  case (2 c cs)
  show ?case
  proof (cases "isSpace c")
    case True
    let ?d = "dropWhile isSpace cs"
    from 2 True have ih: "wsNorm (collapseWs ?d)" by simp
    have "collapseWs ?d = [] \<or> \<not> isSpace (hd (collapseWs ?d))"
    proof (cases ?d)
      case Nil
      then have "collapseWs ?d = []" by (simp only: collapseWs.simps)
      then show ?thesis by (rule disjI1)
    next
      case (Cons a as)
      then have "\<not> isSpace a"
        by (metis hd_dropWhile list.sel(1) list.distinct(1))
      then have "collapseWs ?d = a # collapseWs as"
        unfolding Cons by simp
      then have "hd (collapseWs ?d) = a" by simp
      with \<open>\<not> isSpace a\<close> show ?thesis by simp
    qed
    with ih True show ?thesis by simp
  next
    case False
    with 2 show ?thesis by simp
  qed
qed

lemma collapseWs_wsNorm: "wsNorm s \<Longrightarrow> collapseWs s = s"
proof (induction s rule: collapseWs.induct)
  case 1
  then show ?case by simp
next
  case (2 c cs)
  show ?case
  proof (cases "isSpace c")
    case True
    with 2(3) have c: "c = CHR '' ''" and h: "cs = [] \<or> \<not> isSpace (hd cs)" and n: "wsNorm cs"
      by auto
    from h have d: "dropWhile isSpace cs = cs" by (cases cs) auto
    with 2 True n have "collapseWs cs = cs" by simp
    with True c d show ?thesis by simp
  next
    case False
    with 2 show ?thesis by simp
  qed
qed

lemma wsNorm_append: "wsNorm (xs @ ys) \<Longrightarrow> wsNorm xs"
proof (induction xs)
  case Nil
  then show ?case by simp
next
  case (Cons c cs)
  then show ?case by (cases cs) auto
qed

lemma wsNorm_dropWhile: "wsNorm s \<Longrightarrow> wsNorm (dropWhile P s)"
  by (induction s) auto

lemma wsNorm_trim: "wsNorm s \<Longrightarrow> wsNorm (trim s)"
proof -
  assume "wsNorm s"
  then have "wsNorm (dropWhile isSpace s)" by (rule wsNorm_dropWhile)
  then have "wsNorm (trimEnd (dropWhile isSpace s) @ rev (takeWhile isSpace (rev (dropWhile isSpace s))))"
    using trimEnd_prefix[of "dropWhile isSpace s"] by simp
  then show ?thesis
    unfolding trim_def by (rule wsNorm_append)
qed

lemma dropWhile_idem: "dropWhile P (dropWhile P s) = dropWhile P s"
  by (induction s) auto

lemma trimEnd_idem: "trimEnd (trimEnd s) = trimEnd s"
  by (simp add: trimEnd_def dropWhile_idem)

lemma dropWhile_trimEnd: "dropWhile isSpace (trimEnd (dropWhile isSpace s)) = trimEnd (dropWhile isSpace s)"
proof (cases "trimEnd (dropWhile isSpace s)")
  case Nil
  then show ?thesis by simp
next
  case (Cons a as)
  let ?d = "dropWhile isSpace s"
  from Cons trimEnd_prefix[of ?d] have "?d = a # (as @ rev (takeWhile isSpace (rev ?d)))"
    by simp
  then have "\<not> isSpace a"
    by (metis hd_dropWhile list.sel(1) list.distinct(1))
  with Cons show ?thesis by simp
qed

lemma trim_idem: "trim (trim s) = trim s"
  by (simp add: trim_def dropWhile_trimEnd trimEnd_idem)

lemma set_trim: "set (trim s) \<subseteq> set s"
proof -
  have "set (trimEnd t) \<subseteq> set t" for t
    by (auto simp: trimEnd_def dest: set_dropWhileD)
  then have "set (trim s) \<subseteq> set (dropWhile isSpace s)"
    by (simp add: trim_def)
  moreover have "set (dropWhile isSpace s) \<subseteq> set s"
    by (auto dest: set_dropWhileD)
  ultimately show ?thesis by blast
qed

text \<open>
  Claim C4, as stated: for every string \<open>x\<close>, \<open>cleanAbstract(cleanAbstract(x))\<close> equals
  \<open>cleanAbstract(x)\<close>.  It fails where decoding an entity produces new markup: the input
  \<open>&amp;lt;\<close> is cleaned to \<open>&lt;\<close>, and cleaning that gives \<open><\<close>.
\<close>

theorem cleanAbstract_not_idempotent:
  "cleanAbstract (Some (cleanAbstract (Some ''&amp;lt;''))) \<noteq> cleanAbstract (Some ''&amp;lt;'')"
  by code_simp

text \<open>
  Claim C4, amended: for every string \<open>x\<close> that contains no ampersand,
  \<open>cleanAbstract(cleanAbstract(x))\<close> equals \<open>cleanAbstract(x)\<close>.
\<close>

theorem cleanAbstract_idempotent_without_ampersand:
  assumes "CHR ''&'' \<notin> set x"
  shows "cleanAbstract (Some (cleanAbstract (Some x))) = cleanAbstract (Some x)"
proof (cases "x = []")
  case True
  then show ?thesis by simp
next
  case False
  let ?t = "removeTags ''<'' (removeTags ''</jats:'' (removeTags ''<jats:'' x))"
  let ?y = "trim (collapseWs ?t)"
  have "set ?t \<subseteq> set (removeTags ''</jats:'' (removeTags ''<jats:'' x))"
    by (rule set_removeTags)
  also have "\<dots> \<subseteq> set (removeTags ''<jats:'' x)"
    by (rule set_removeTags)
  also have "\<dots> \<subseteq> set x"
    by (rule set_removeTags)
  finally have amp_t: "CHR ''&'' \<notin> set ?t"
    using assms by blast
  then have y: "cleanAbstract (Some x) = ?y"
    using False by (simp add: decodeEntities_absent)
  have "noTag ?t" by (rule noTag_removeTags)
  then have nt: "noTag ?y" by (intro noTag_trim noTag_collapseWs)
  have ws: "wsNorm ?y" by (intro wsNorm_trim wsNorm_collapseWs)
  have "set ?y \<subseteq> insert (CHR '' '') (set ?t)"
    using set_trim[of "collapseWs ?t"] set_collapseWs[of ?t] by blast
  with amp_t have amp_y: "CHR ''&'' \<notin> set ?y" by auto
  have r1: "removeTags ''<jats:'' ?y = ?y"
    using nt by (intro removeTags_noTag) simp_all
  have r2: "removeTags ''</jats:'' ?y = ?y"
    using nt by (intro removeTags_noTag) simp_all
  have r3: "removeTags ''<'' ?y = ?y"
    using nt by (intro removeTags_noTag) simp_all
  have "cleanAbstract (Some ?y) = ?y"
  proof (cases "?y = []")
    case True
    then show ?thesis by simp
  next
    case False
    have de: "decodeEntities ?y = ?y"
      using amp_y by (rule decodeEntities_absent)
    have "cleanAbstract (Some ?y)
          = trim (collapseWs (decodeEntities
              (removeTags ''<'' (removeTags ''</jats:'' (removeTags ''<jats:'' ?y)))))"
      using False by simp
    also have "\<dots> = trim (collapseWs ?y)"
      by (simp only: r1 r2 r3 de)
    also have "\<dots> = ?y"
      using ws by (simp add: collapseWs_wsNorm trim_idem)
    finally show ?thesis .
  qed
  with y show ?thesis by simp
qed

theorem cleanAbstract_idempotent_without_ampersand_witness:
  "CHR ''&'' \<notin> set ''<jats:p>A  <b>b</b> c</jats:p>''
   \<and> cleanAbstract (Some (cleanAbstract (Some ''<jats:p>A  <b>b</b> c</jats:p>'')))
       = cleanAbstract (Some ''<jats:p>A  <b>b</b> c</jats:p>'')
   \<and> cleanAbstract (Some ''<jats:p>A  <b>b</b> c</jats:p>'') = ''A b c''"
proof -
  have h: "CHR ''&'' \<notin> set ''<jats:p>A  <b>b</b> c</jats:p>''"
    by simp
  have v: "cleanAbstract (Some ''<jats:p>A  <b>b</b> c</jats:p>'') = ''A b c''"
    by code_simp
  show ?thesis
    using h v cleanAbstract_idempotent_without_ampersand [OF h] by simp
qed

section \<open>extractDOI (doiLookup.js)\<close>

text \<open>
  Case-insensitive matching (flag \<open>i\<close>) of a literal whose letters are ASCII: a text
  character matches a pattern letter iff it is that letter in either case.  The literal is
  written in lower case.
\<close>

definition asciiLower :: "char \<Rightarrow> char" where
  "asciiLower c =
     (case map_of (zip ''ABCDEFGHIJKLMNOPQRSTUVWXYZ'' ''abcdefghijklmnopqrstuvwxyz'') c of
        Some l \<Rightarrow> l | None \<Rightarrow> c)"

definition ciStartsWith :: "string \<Rightarrow> string \<Rightarrow> bool" where
  "ciStartsWith p s = startsWith p (map asciiLower (take (length p) s))"

text \<open>
  The capturing group \<open>(10\.\d{4,}\/[^\s]+)\<close>, anchored at the current position and followed
  by nothing that constrains it.  \<open>\d{4,}\<close> takes every digit and must be followed by \<open>/\<close>
  (giving digits back leaves a digit where \<open>/\<close> is required); \<open>[^\s]+\<close> takes the whole run
  of characters up to the next white space.
\<close>

definition doiCore :: "string \<Rightarrow> string option" where
  "doiCore s =
     (if startsWith ''10.'' s then
        let r = drop 3 s; ds = takeWhile isDigit r; r2 = dropWhile isDigit r
        in if 4 \<le> length ds \<and> startsWith ''/'' r2 then
             let run = takeWhile (\<lambda>c. \<not> isSpace c) (tl r2)
             in if run \<noteq> [] then Some (''10.'' @ ds @ ''/'' @ run) else None
           else None
      else None)"

text \<open>\<open>/doi:\s*(10\.\d{4,}\/[^\s]+)/i\<close> at the current position.  The third pattern of the
  source, \<open>/DOI:\s*(10\.\d{4,}\/[^\s]+)/i\<close>, is the same expression under flag \<open>i\<close>.\<close>

definition doiPrefixAt :: "string \<Rightarrow> string option" where
  "doiPrefixAt s =
     (if ciStartsWith ''doi:'' s then doiCore (dropWhile isSpace (drop 4 s)) else None)"

text \<open>\<open>/https?:\/\/doi\.org\/(10\.\d{4,}\/[^\s]+)/i\<close> at the current position.\<close>

definition doiUrlAt :: "string \<Rightarrow> string option" where
  "doiUrlAt s =
     (if ciStartsWith ''http'' s then
        let r = drop 4 s; r' = (if ciStartsWith ''s'' r then drop 1 r else r)
        in if ciStartsWith ''://doi.org/'' r' then doiCore (drop 11 r') else None
      else None)"

text \<open>\<open>String.prototype.match\<close> without flag \<open>g\<close>: the expression is tried at every position from
  the left, and the first position where it matches decides.\<close>

fun searchRx :: "(string \<Rightarrow> 'a option) \<Rightarrow> string \<Rightarrow> 'a option" where
  "searchRx m [] = m []"
| "searchRx m (c # cs) = (case m (c # cs) of Some r \<Rightarrow> Some r | None \<Rightarrow> searchRx m cs)"

text \<open>
  The closing \<open>\b\<close> of \<open>/\b(10\.\d{4,}\/[^\s]+)\b/\<close>: the greedy \<open>[^\s]+\<close> gives characters back
  until the capture ends at a word boundary.  The argument is the run reversed, with whether
  the character after it is a word character; the result is the longest non-empty prefix
  of the run that ends at a boundary.
\<close>

fun lastBoundary :: "bool \<Rightarrow> string \<Rightarrow> string option" where
  "lastBoundary nw [] = None"
| "lastBoundary nw (c # rcs) =
     (if isWord c \<noteq> nw then Some (rev (c # rcs)) else lastBoundary (isWord c) rcs)"

definition bareAt :: "string \<Rightarrow> string option" where
  "bareAt s =
     (if startsWith ''10.'' s then
        let r = drop 3 s; ds = takeWhile isDigit r; r2 = dropWhile isDigit r
        in if 4 \<le> length ds \<and> startsWith ''/'' r2 then
             (case lastBoundary False (rev (takeWhile (\<lambda>c. \<not> isSpace c) (tl r2))) of
                Some run \<Rightarrow> Some (''10.'' @ ds @ ''/'' @ run)
              | None \<Rightarrow> None)
           else None
      else None)"

text \<open>The search for the bare pattern: the opening \<open>\b\<close> asks that the character before the
  \<open>1\<close> is not a word character (\<open>pw\<close> says whether it is).\<close>

fun searchBare :: "bool \<Rightarrow> string \<Rightarrow> string option" where
  "searchBare pw [] = None"
| "searchBare pw (c # cs) =
     (case (if pw then None else bareAt (c # cs)) of
        Some r \<Rightarrow> Some r
      | None \<Rightarrow> searchBare (isWord c) cs)"

text \<open>\<open>doi.replace(/[.,;:!?]$/, '')\<close>: one character is removed, when it is the last one.\<close>

definition stripTrailingPunct :: "string \<Rightarrow> string" where
  "stripTrailingPunct d = (if d \<noteq> [] \<and> last d \<in> set ''.,;:!?'' then butlast d else d)"

text \<open>
  \<^verbatim>\<open>
  export function extractDOI(text) {
      if (!text) return null;
      const patterns = [
          /doi:\s*(10\.\d{4,}\/[^\s]+)/i,
          /https?:\/\/doi\.org\/(10\.\d{4,}\/[^\s]+)/i,
          /DOI:\s*(10\.\d{4,}\/[^\s]+)/i,
          /\b(10\.\d{4,}\/[^\s]+)\b/
      ];
      for (const pattern of patterns) {
          const match = text.match(pattern);
          if (match && match[1]) {
              const doi = match[1].trim();
              return doi.replace(/[.,;:!?]$/, '');
          }
      }
      return null;
  }
  \<close>
  Each pattern is given by the function from the text to its capture.
\<close>

definition doiPatterns :: "(string \<Rightarrow> string option) list" where
  "doiPatterns = [searchRx doiPrefixAt, searchRx doiUrlAt, searchRx doiPrefixAt, searchBare False]"

fun firstCapture :: "(string \<Rightarrow> string option) list \<Rightarrow> string \<Rightarrow> string option" where
  "firstCapture [] text = None"
| "firstCapture (pattern # patterns) text =
     (case pattern text of
        Some m \<Rightarrow> if m \<noteq> [] then Some (stripTrailingPunct (trim m)) else firstCapture patterns text
      | None \<Rightarrow> firstCapture patterns text)"

definition extractDOI :: "string \<Rightarrow> string option" where
  "extractDOI text = (if text = [] then None else firstCapture doiPatterns text)"

subsection \<open>Priority of the patterns\<close>

lemma trim_id: "m \<noteq> [] \<Longrightarrow> \<not> isSpace (hd m) \<Longrightarrow> \<not> isSpace (last m) \<Longrightarrow> trim m = m"
proof -
  assume m: "m \<noteq> []" and h: "\<not> isSpace (hd m)" and l: "\<not> isSpace (last m)"
  from m h have d: "dropWhile isSpace m = m" by (cases m) auto
  from m have "hd (rev m) = last m" by (simp add: hd_rev)
  with l have "\<not> isSpace (hd (rev m))" by simp
  moreover from m have "rev m \<noteq> []" by simp
  ultimately have "dropWhile isSpace (rev m) = rev m"
    by (cases "rev m") simp_all
  then show ?thesis by (simp add: trim_def trimEnd_def d)
qed

lemma doiCore_Some:
  assumes "doiCore s = Some m"
  shows "\<exists>ds run. m = ''10.'' @ ds @ ''/'' @ run \<and> 4 \<le> length ds \<and> list_all isDigit ds
           \<and> run \<noteq> [] \<and> list_all (\<lambda>c. \<not> isSpace c) run"
proof -
  let ?ds = "takeWhile isDigit (drop 3 s)"
  let ?run = "takeWhile (\<lambda>c. \<not> isSpace c) (tl (dropWhile isDigit (drop 3 s)))"
  from assms have "m = ''10.'' @ ?ds @ ''/'' @ ?run \<and> 4 \<le> length ?ds \<and> ?run \<noteq> []"
    unfolding doiCore_def Let_def by (simp split: if_splits)
  moreover have "list_all isDigit ?ds"
    by (auto simp: list_all_iff dest: set_takeWhileD)
  moreover have "list_all (\<lambda>c. \<not> isSpace c) ?run"
    by (auto simp: list_all_iff dest: set_takeWhileD)
  ultimately show ?thesis by blast
qed

lemma lastBoundary_Some:
  "lastBoundary nw r = Some t \<Longrightarrow> t \<noteq> [] \<and> set t \<subseteq> set r"
proof (induction r arbitrary: nw)
  case Nil
  then show ?case by simp
next
  case (Cons c rcs)
  show ?case
  proof (cases "isWord c \<noteq> nw")
    case True
    with Cons.prems show ?thesis by auto
  next
    case False
    with Cons.prems have "lastBoundary (isWord c) rcs = Some t" by simp
    then have "t \<noteq> [] \<and> set t \<subseteq> set rcs" by (rule Cons.IH)
    then show ?thesis by auto
  qed
qed

lemma bareAt_Some:
  assumes "bareAt s = Some m"
  shows "\<exists>ds run. m = ''10.'' @ ds @ ''/'' @ run \<and> 4 \<le> length ds \<and> list_all isDigit ds
           \<and> run \<noteq> [] \<and> list_all (\<lambda>c. \<not> isSpace c) run"
proof -
  define ds where "ds = takeWhile isDigit (drop 3 s)"
  define full where "full = takeWhile (\<lambda>c. \<not> isSpace c) (tl (dropWhile isDigit (drop 3 s)))"
  from assms have "\<exists>run. lastBoundary False (rev full) = Some run
    \<and> m = ''10.'' @ ds @ ''/'' @ run \<and> 4 \<le> length ds"
    unfolding bareAt_def Let_def ds_def full_def by (simp split: if_splits option.splits)
  then obtain run where lb: "lastBoundary False (rev full) = Some run"
    and m: "m = ''10.'' @ ds @ ''/'' @ run" and l: "4 \<le> length ds"
    by blast
  from lb have r: "run \<noteq> [] \<and> set run \<subseteq> set (rev full)" by (rule lastBoundary_Some)
  have f: "\<forall>c \<in> set full. \<not> isSpace c"
    unfolding full_def by (auto dest: set_takeWhileD)
  have "\<forall>c \<in> set run. \<not> isSpace c"
  proof
    fix c assume "c \<in> set run"
    with r have "c \<in> set full" by auto
    with f show "\<not> isSpace c" by blast
  qed
  then have sp: "list_all (\<lambda>c. \<not> isSpace c) run"
    by (simp add: list_all_iff)
  have dg: "list_all isDigit ds"
    unfolding ds_def by (auto simp: list_all_iff dest: set_takeWhileD)
  from m l dg r sp show ?thesis by blast
qed

lemma doi_capture_trim:
  assumes "m = ''10.'' @ ds @ ''/'' @ run" and "run \<noteq> []" and "list_all (\<lambda>c. \<not> isSpace c) run"
  shows "m \<noteq> [] \<and> trim m = m"
proof -
  have "\<not> isSpace (hd m)" using assms(1) by (simp add: isSpace_def)
  moreover have "last m = last run" using assms(1,2) by simp
  then have "\<not> isSpace (last m)" using assms(2,3) by (simp add: list_all_iff)
  moreover have "m \<noteq> []" using assms(1) by simp
  ultimately show ?thesis by (simp add: trim_id)
qed

lemma searchRx_from:
  "searchRx f text = Some m \<Longrightarrow> \<exists>pre s. text = pre @ s \<and> f s = Some m"
proof (induction "text")
  case Nil
  then show ?case by simp
next
  case (Cons c cs)
  show ?case
  proof (cases "f (c # cs)")
    case None
    with Cons.prems have "searchRx f cs = Some m" by simp
    then obtain pre s where "cs = pre @ s \<and> f s = Some m" using Cons.IH by blast
    then have "c # cs = (c # pre) @ s \<and> f s = Some m" by simp
    then show ?thesis by blast
  next
    case (Some r)
    with Cons.prems have "c # cs = [] @ (c # cs) \<and> f (c # cs) = Some m" by simp
    then show ?thesis by blast
  qed
qed

lemma searchRx_finds:
  "f s = Some m0 \<Longrightarrow> \<exists>m. searchRx f (pre @ s) = Some m"
proof (induction pre)
  case Nil
  then show ?case by (cases s) auto
next
  case (Cons a p)
  then show ?case by (cases "f (a # p @ s)") auto
qed

lemma searchBare_from:
  "searchBare pw text = Some m \<Longrightarrow> \<exists>s. bareAt s = Some m"
proof (induction "text" arbitrary: pw)
  case Nil
  then show ?case by simp
next
  case (Cons c cs)
  then show ?case
    by (cases "if pw then None else bareAt (c # cs)") (auto split: if_splits)
qed

lemma doiPrefixAt_capture: "doiPrefixAt s = Some m \<Longrightarrow> m \<noteq> [] \<and> trim m = m"
proof -
  assume "doiPrefixAt s = Some m"
  then have "doiCore (dropWhile isSpace (drop 4 s)) = Some m"
    by (simp add: doiPrefixAt_def split: if_splits)
  then show ?thesis
    using doiCore_Some doi_capture_trim by blast
qed

lemma doiUrlAt_capture: "doiUrlAt s = Some m \<Longrightarrow> m \<noteq> [] \<and> trim m = m"
proof -
  assume "doiUrlAt s = Some m"
  then have "\<exists>t. doiCore t = Some m"
    unfolding doiUrlAt_def Let_def by (simp split: if_splits) blast+
  then obtain t where "doiCore t = Some m"
    by blast
  then show ?thesis
    using doiCore_Some doi_capture_trim by blast
qed

lemma bareAt_capture: "bareAt s = Some m \<Longrightarrow> m \<noteq> [] \<and> trim m = m"
  using bareAt_Some doi_capture_trim by blast

lemma search_prefix_capture:
  assumes "searchRx doiPrefixAt text = Some m"
  shows "m \<noteq> [] \<and> trim m = m"
proof -
  from assms have "\<exists>pre s. text = pre @ s \<and> doiPrefixAt s = Some m"
    by (rule searchRx_from)
  then obtain s where "doiPrefixAt s = Some m"
    by blast
  then show ?thesis
    by (rule doiPrefixAt_capture)
qed

lemma search_url_capture:
  assumes "searchRx doiUrlAt text = Some m"
  shows "m \<noteq> [] \<and> trim m = m"
proof -
  from assms have "\<exists>pre s. text = pre @ s \<and> doiUrlAt s = Some m"
    by (rule searchRx_from)
  then obtain s where "doiUrlAt s = Some m"
    by blast
  then show ?thesis
    by (rule doiUrlAt_capture)
qed

lemma search_bare_capture:
  assumes "searchBare False text = Some m"
  shows "m \<noteq> [] \<and> trim m = m"
proof -
  from assms have "\<exists>s. bareAt s = Some m"
    by (rule searchBare_from)
  then obtain s where "bareAt s = Some m"
    by blast
  then show ?thesis
    by (rule bareAt_capture)
qed

lemma extractDOI_cases:
  "extractDOI text =
     (case searchRx doiPrefixAt text of
        Some m \<Rightarrow> Some (stripTrailingPunct m)
      | None \<Rightarrow>
          (case searchRx doiUrlAt text of
             Some m \<Rightarrow> Some (stripTrailingPunct m)
           | None \<Rightarrow>
               (case searchBare False text of
                  Some m \<Rightarrow> Some (stripTrailingPunct m)
                | None \<Rightarrow> None)))"
proof (cases "text = []")
  case True
  then show ?thesis
    by (simp add: extractDOI_def doiPrefixAt_def doiUrlAt_def ciStartsWith_def)
next
  case False
  show ?thesis
  proof (cases "searchRx doiPrefixAt text")
    case (Some m)
    then show ?thesis
      using False search_prefix_capture[OF Some] by (simp add: extractDOI_def doiPatterns_def)
  next
    case p: None
    show ?thesis
    proof (cases "searchRx doiUrlAt text")
      case (Some m)
      then show ?thesis
        using False p search_url_capture[OF Some] by (simp add: extractDOI_def doiPatterns_def)
    next
      case u: None
      show ?thesis
      proof (cases "searchBare False text")
        case (Some m)
        then show ?thesis
          using False p u search_bare_capture[OF Some] by (simp add: extractDOI_def doiPatterns_def)
      next
        case None
        then show ?thesis
          using False p u by (simp add: extractDOI_def doiPatterns_def)
      qed
    qed
  qed
qed

text \<open>
  Claim C7: extractDOI applies its patterns in the order \<open>doi:\<close> prefix, doi.org URL, \<open>DOI:\<close>
  prefix, bare pattern, and returns the capture of the first one that matches, with one
  trailing character from \<open>.,;:!?\<close> removed, or nothing when none matches (the \<open>DOI:\<close> pattern
  is the \<open>doi:\<close> pattern under flag \<open>i\<close>, so it never decides).  In particular, whenever the
  text holds a \<open>doi:\<close>-prefixed DOI anywhere, the value returned is the capture of a
  \<open>doi:\<close>-prefixed match, whatever bare DOIs the text also holds.
\<close>

theorem extractDOI_priority:
  "extractDOI text =
     (case searchRx doiPrefixAt text of
        Some m \<Rightarrow> Some (stripTrailingPunct m)
      | None \<Rightarrow>
          (case searchRx doiUrlAt text of
             Some m \<Rightarrow> Some (stripTrailingPunct m)
           | None \<Rightarrow>
               (case searchBare False text of
                  Some m \<Rightarrow> Some (stripTrailingPunct m)
                | None \<Rightarrow> None)))
   \<and> (\<forall>pre s m0. text = pre @ s \<and> doiPrefixAt s = Some m0 \<longrightarrow>
         (\<exists>pre' s' m. text = pre' @ s' \<and> doiPrefixAt s' = Some m
                      \<and> extractDOI text = Some (stripTrailingPunct m)))"
proof (intro conjI allI impI)
  show "extractDOI text =
     (case searchRx doiPrefixAt text of
        Some m \<Rightarrow> Some (stripTrailingPunct m)
      | None \<Rightarrow>
          (case searchRx doiUrlAt text of
             Some m \<Rightarrow> Some (stripTrailingPunct m)
           | None \<Rightarrow>
               (case searchBare False text of
                  Some m \<Rightarrow> Some (stripTrailingPunct m)
                | None \<Rightarrow> None)))"
    by (rule extractDOI_cases)
next
  fix pre s m0
  assume a: "text = pre @ s \<and> doiPrefixAt s = Some m0"
  then obtain m where m: "searchRx doiPrefixAt text = Some m"
    using searchRx_finds[of doiPrefixAt s m0 pre] by auto
  from m have "\<exists>pre' s'. text = pre' @ s' \<and> doiPrefixAt s' = Some m"
    by (rule searchRx_from)
  then obtain pre' s' where "text = pre' @ s' \<and> doiPrefixAt s' = Some m"
    by blast
  moreover have "extractDOI text = Some (stripTrailingPunct m)"
    unfolding extractDOI_cases m by simp
  ultimately show "\<exists>pre' s' m. text = pre' @ s' \<and> doiPrefixAt s' = Some m
                      \<and> extractDOI text = Some (stripTrailingPunct m)"
    by blast
qed

theorem extractDOI_priority_witness:
  "''See 10.1111/aaa and doi:10.2222/bbb.'' = ''See 10.1111/aaa and '' @ ''doi:10.2222/bbb.''
   \<and> doiPrefixAt ''doi:10.2222/bbb.'' = Some ''10.2222/bbb.''
   \<and> searchBare False ''See 10.1111/aaa and doi:10.2222/bbb.'' = Some ''10.1111/aaa''
   \<and> (\<exists>pre' s' m. ''See 10.1111/aaa and doi:10.2222/bbb.'' = pre' @ s' \<and> doiPrefixAt s' = Some m
         \<and> extractDOI ''See 10.1111/aaa and doi:10.2222/bbb.'' = Some (stripTrailingPunct m))
   \<and> extractDOI ''See 10.1111/aaa and doi:10.2222/bbb.'' = Some ''10.2222/bbb''"
proof -
  have h: "''See 10.1111/aaa and doi:10.2222/bbb.'' = ''See 10.1111/aaa and '' @ ''doi:10.2222/bbb.''
           \<and> doiPrefixAt ''doi:10.2222/bbb.'' = Some ''10.2222/bbb.''"
    by code_simp
  have b: "searchBare False ''See 10.1111/aaa and doi:10.2222/bbb.'' = Some ''10.1111/aaa''"
    by code_simp
  have v: "extractDOI ''See 10.1111/aaa and doi:10.2222/bbb.'' = Some ''10.2222/bbb''"
    by code_simp
  from extractDOI_priority [of "''See 10.1111/aaa and doi:10.2222/bbb.''", THEN conjunct2, rule_format, OF h]
  have "\<exists>pre' s' m. ''See 10.1111/aaa and doi:10.2222/bbb.'' = pre' @ s' \<and> doiPrefixAt s' = Some m
         \<and> extractDOI ''See 10.1111/aaa and doi:10.2222/bbb.'' = Some (stripTrailingPunct m)" .
  with h b v show ?thesis
    by blast
qed

section \<open>extractYear (pdfMetadata.js)\<close>

text \<open>The \<open>info\<close> dictionary of a PDF as pdf.js reports it, and the object \<open>getMetadata()\<close>
  resolves to.  An absent key is \<open>None\<close>.\<close>

record pdfInfo =
  Title :: "string option"
  Author :: "string option"
  CreationDate :: "string option"

record pdfMetadata =
  info :: "pdfInfo option"

text \<open>\<open>/(\d{4})/\<close> at the current position.\<close>

definition fourDigitsAt :: "string \<Rightarrow> string option" where
  "fourDigitsAt s = (if 4 \<le> length s \<and> list_all isDigit (take 4 s) then Some (take 4 s) else None)"

text \<open>\<open>parseInt\<close> on a string of decimal digits.\<close>

definition digitValue :: "char \<Rightarrow> int" where
  "digitValue c = of_char c - of_char (CHR ''0'')"

definition parseInt :: "string \<Rightarrow> int" where
  "parseInt s = foldl (\<lambda>n c. 10 * n + digitValue c) 0 s"

text \<open>The group \<open>(19\d{2}|20[0-2]\d)\<close> at the current position.\<close>

definition yearAt :: "string \<Rightarrow> string option" where
  "yearAt s =
     (if 4 \<le> length s \<and> startsWith ''19'' s \<and> isDigit (s ! 2) \<and> isDigit (s ! 3) then Some (take 4 s)
      else if 4 \<le> length s \<and> startsWith ''20'' s \<and> s ! 2 \<in> set ''012'' \<and> isDigit (s ! 3)
           then Some (take 4 s)
      else None)"

text \<open>
  \<open>text.match(/\b(19\d{2}|20[0-2]\d)\b/g)\<close>: all matches from the left, without overlap.
  \<open>pw\<close> says whether the character before the current position is a word character; a
  match needs a non-word character (or nothing) on both sides, and the scan goes on after
  its last digit.
\<close>

function matchAllYears :: "bool \<Rightarrow> string \<Rightarrow> string list" where
  "matchAllYears pw [] = []"
| "matchAllYears pw (c # cs) =
     (case (if pw then None else yearAt (c # cs)) of
        Some y \<Rightarrow>
          if drop 3 cs = [] \<or> \<not> isWord (hd (drop 3 cs)) then y # matchAllYears True (drop 3 cs)
          else matchAllYears (isWord c) cs
      | None \<Rightarrow> matchAllYears (isWord c) cs)"
  by pat_completeness auto
termination
  by (relation "measure (\<lambda>(pw, s). length s)") auto

text \<open>\<open>xs.sort((a, b) => b - a)\<close> on numbers: descending order.\<close>

definition sortDescending :: "int list \<Rightarrow> int list" where
  "sortDescending xs = rev (sort xs)"

text \<open>
  \<^verbatim>\<open>
  function extractYear(metadata, text) {
      if (metadata?.info?.CreationDate) {
          const dateMatch = metadata.info.CreationDate.match(/(\d{4})/);
          if (dateMatch) {
              const year = parseInt(dateMatch[1]);
              if (year >= 1900 && year <= new Date().getFullYear() + 1) {
                  return year;
              }
          }
      }
      const currentYear = new Date().getFullYear();
      const yearPattern = /\b(19\d{2}|20[0-2]\d)\b/g;
      const years = text.match(yearPattern);
      if (years) {
          const validYears = years
              .map(y => parseInt(y))
              .filter(y => y >= 1900 && y <= currentYear + 1)
              .sort((a, b) => b - a);
          if (validYears.length > 0) {
              return validYears[0];
          }
      }
      return new Date().getFullYear();
  }
  \<close>
  \<open>currentYear\<close> is what \<open>new Date().getFullYear()\<close> gives during the call.
  \<open>creationDateYear\<close> is the first \<open>if\<close> block: the year it returns, if it returns.
\<close>

definition creationDateYear :: "int \<Rightarrow> pdfMetadata \<Rightarrow> int option" where
  "creationDateYear currentYear metadata =
     (case info metadata of
        None \<Rightarrow> None
      | Some i \<Rightarrow>
          (case CreationDate i of
             None \<Rightarrow> None
           | Some date \<Rightarrow>
               if date = [] then None
               else (case searchRx fourDigitsAt date of
                       None \<Rightarrow> None
                     | Some dateMatch \<Rightarrow>
                         let year = parseInt dateMatch
                         in if 1900 \<le> year \<and> year \<le> currentYear + 1 then Some year else None)))"

definition extractYear :: "int \<Rightarrow> pdfMetadata \<Rightarrow> string \<Rightarrow> int" where
  "extractYear currentYear metadata text =
     (case creationDateYear currentYear metadata of
        Some year \<Rightarrow> year
      | None \<Rightarrow>
          let years = matchAllYears False text
          in if years \<noteq> [] then
               let validYears =
                     sortDescending (filter (\<lambda>y. 1900 \<le> y \<and> y \<le> currentYear + 1) (map parseInt years))
               in if 0 < length validYears then hd validYears else currentYear
             else currentYear)"

lemma last_sorted_Max: "xs \<noteq> [] \<Longrightarrow> sorted xs \<Longrightarrow> last xs = Max (set xs)"
proof (induction xs)
  case Nil
  then show ?case by simp
next
  case (Cons a as)
  show ?case
  proof (cases "as = []")
    case True
    then show ?thesis by simp
  next
    case False
    with Cons have ih: "last as = Max (set as)" by simp
    from Cons.prems have "\<forall>x\<in>set as. a \<le> x" by simp
    moreover from False have "hd as \<in> set as" by simp
    ultimately have "a \<le> hd as" by blast
    moreover have "hd as \<le> Max (set as)" using \<open>hd as \<in> set as\<close> by simp
    ultimately have "a \<le> Max (set as)" by simp
    then have "Max (set (a # as)) = Max (set as)" using False by (simp add: max_absorb2)
    with ih False show ?thesis by simp
  qed
qed

lemma hd_sortDescending: "xs \<noteq> [] \<Longrightarrow> hd (sortDescending xs) = Max (set xs)"
proof -
  assume ne: "xs \<noteq> []"
  then have "sort xs \<noteq> []" by (metis length_sort length_0_conv)
  then have "hd (rev (sort xs)) = last (sort xs)" by (simp add: hd_rev)
  also have "\<dots> = Max (set (sort xs))"
    using \<open>sort xs \<noteq> []\<close> by (intro last_sorted_Max) simp_all
  finally show ?thesis by (simp add: sortDescending_def)
qed

lemma matchAllYears_tokens: "t \<in> set (matchAllYears pw s) \<Longrightarrow> \<exists>u. yearAt u = Some t"
proof (induction pw s rule: matchAllYears.induct)
  case (1 pw)
  then show ?case by simp
next
  case (2 pw c cs)
  show ?case
  proof (cases "if pw then None else yearAt (c # cs)")
    case None
    with 2 show ?thesis by simp
  next
    case (Some y)
    show ?thesis
    proof (cases "drop 3 cs = [] \<or> \<not> isWord (hd (drop 3 cs))")
      case True
      with Some 2 show ?thesis by (auto split: if_splits)
    next
      case False
      with Some 2 show ?thesis by simp
    qed
  qed
qed

text \<open>
  Claim C8: when the creation-date string yields no valid year, extractYear scans the text
  for all tokens matching \<open>(19\d{2}|20[0-2]\d)\<close>, keeps those within
  \<open>[1900, currentYear + 1]\<close> and returns the largest; when there is none it returns the
  current year.  For a text holding 1995, 2010 and 2099 and the current year 2024 it
  returns 2010 (2099 is not a token of the pattern).
\<close>

theorem extractYear_text_fallback:
  "(creationDateYear currentYear metadata = None \<longrightarrow>
      extractYear currentYear metadata text =
        (let valid = filter (\<lambda>y. 1900 \<le> y \<and> y \<le> currentYear + 1)
                       (map parseInt (matchAllYears False text))
         in if valid = [] then currentYear else Max (set valid)))
   \<and> (\<forall>t \<in> set (matchAllYears False text). \<exists>u. yearAt u = Some t)
   \<and> extractYear 2024 \<lparr>info = None\<rparr> ''Published 1995, revised 2010, projected 2099.'' = 2010"
proof (intro conjI impI ballI)
  assume c: "creationDateYear currentYear metadata = None"
  define valid where "valid = filter (\<lambda>y. 1900 \<le> y \<and> y \<le> currentYear + 1)
                       (map parseInt (matchAllYears False text))"
  have e: "extractYear currentYear metadata text =
             (if matchAllYears False text \<noteq> [] then
                if 0 < length (sortDescending valid) then hd (sortDescending valid) else currentYear
              else currentYear)"
    unfolding extractYear_def Let_def valid_def c by simp
  have l: "length (sortDescending valid) = length valid"
    by (simp add: sortDescending_def)
  have "extractYear currentYear metadata text = (if valid = [] then currentYear else Max (set valid))"
  proof (cases "valid = []")
    case True
    with e l show ?thesis by simp
  next
    case False
    then have "matchAllYears False text \<noteq> []"
      unfolding valid_def by auto
    moreover from False have "hd (sortDescending valid) = Max (set valid)"
      by (rule hd_sortDescending)
    ultimately show ?thesis using e l False by simp
  qed
  then show "extractYear currentYear metadata text =
        (let valid = filter (\<lambda>y. 1900 \<le> y \<and> y \<le> currentYear + 1)
                       (map parseInt (matchAllYears False text))
         in if valid = [] then currentYear else Max (set valid))"
    unfolding valid_def Let_def .
next
  fix t assume "t \<in> set (matchAllYears False text)"
  then show "\<exists>u. yearAt u = Some t" by (rule matchAllYears_tokens)
next
  show "extractYear 2024 \<lparr>info = None\<rparr> ''Published 1995, revised 2010, projected 2099.'' = 2010"
    by code_simp
qed

theorem extractYear_text_fallback_witness:
  "creationDateYear 2024 \<lparr>info = Some \<lparr>Title = None, Author = None, CreationDate = Some ''D:18991231''\<rparr>\<rparr> = None
   \<and> matchAllYears False ''(c) 1995-2010; see 2031'' = [''1995'', ''2010'']
   \<and> extractYear 2024 \<lparr>info = Some \<lparr>Title = None, Author = None, CreationDate = Some ''D:18991231''\<rparr>\<rparr>
         ''(c) 1995-2010; see 2031'' = 2010"
proof -
  have h: "creationDateYear 2024 \<lparr>info = Some \<lparr>Title = None, Author = None, CreationDate = Some ''D:18991231''\<rparr>\<rparr> = None"
    by code_simp
  have m: "matchAllYears False ''(c) 1995-2010; see 2031'' = [''1995'', ''2010'']"
    by code_simp
  have p: "map parseInt [''1995'', ''2010''] = [1995, 2010]"
    by code_simp
  from extractYear_text_fallback [of 2024 "\<lparr>info = Some \<lparr>Title = None, Author = None, CreationDate = Some ''D:18991231''\<rparr>\<rparr>"
       "''(c) 1995-2010; see 2031''", THEN conjunct1, rule_format, OF h]
  have "extractYear 2024 \<lparr>info = Some \<lparr>Title = None, Author = None, CreationDate = Some ''D:18991231''\<rparr>\<rparr>
         ''(c) 1995-2010; see 2031'' = 2010"
    unfolding m p by simp
  with h m show ?thesis by simp
qed

section \<open>Remote services\<close>

text \<open>
  A \<open>fetch\<close> either rejects (\<open>NetworkError\<close>) or resolves to a response with a status code and
  a body; the body is \<open>None\<close> when \<open>response.json()\<close> rejects.  \<open>response.ok\<close> holds for the
  status codes 200 to 299.  Every \<open>fetch\<close> made is appended to a log of calls.
\<close>

datatype 'a fetched = NetworkError | Response nat "'a option"

definition ok :: "nat \<Rightarrow> bool" where
  "ok status = (200 \<le> status \<and> status \<le> 299)"

datatype call =
    CrossRefWorks string
  | OpenAlexWorks string
  | SemanticScholarSearch string
  | OpenAlexSources string

text \<open>
  A numeric JSON field as JavaScript reads it: the key is absent (\<open>Undefined\<close>), holds
  \<open>null\<close>, or holds a number.  Numbers are the finite values of doubles, taken as
  rationals: the constants they are compared with (3.0, 1.5, 0.5, 100, 50, 20) are doubles
  themselves, so the comparisons are exact.  \<open>toNumber\<close> is the conversion a relational
  operator applies; \<open>None\<close> is \<open>NaN\<close>, for which every comparison is false.
\<close>

datatype jsnumber = Undefined | Null | Number rat




text \<open>An entry of \<open>results\<close> in the answer of OpenAlex \<open>/sources\<close>; \<open>mean_citedness_2yr\<close> is the
  key \<open>2yr_mean_citedness\<close>.\<close>

record summaryStats =
  mean_citedness_2yr :: jsnumber
  h_index :: jsnumber

record sourceItem =
  summary_stats :: "summaryStats option"
  works_count :: jsnumber

section \<open>Journal ranking (journalRanking.js)\<close>







text \<open>\<open>String.prototype.toLowerCase\<close> on code units below 256, and \<open>s.includes(p)\<close> (as \<open>jsIncludes s p\<close>).\<close>

definition lowerChar :: "char \<Rightarrow> char" where
  "lowerChar c =
     (let n = (of_char c :: nat)
      in if (65 \<le> n \<and> n \<le> 90) \<or> (192 \<le> n \<and> n \<le> 222 \<and> n \<noteq> 215) then char_of (n + 32) else c)"

definition toLowerCase :: "string \<Rightarrow> string" where
  "toLowerCase s = map lowerChar s"











section \<open>Metadata records\<close>

text \<open>
  The objects the adapters, the PDF heuristics and the pipeline build are plain JavaScript
  objects over one set of keys.  A key that an object does not have (it reads as
  \<open>undefined\<close>) is \<open>None\<close>.
\<close>

record metadataRecord =
  title :: "string option"
  authors :: "string list option"
  year :: "int option"
  journal :: "string option"
  abstract :: "string option"
  doi :: "string option"
  type :: "string option"
  volume :: "string option"
  issue :: "string option"
  pages :: "string option"
  publisher :: "string option"
  url :: "string option"
  issn :: "string option"
  isbn :: "string option"
  language :: "string option"
  references :: "int option"
  citations :: "int option"
  source :: "string option"
  journalRanking :: "string option"

text \<open>\<open>a || d\<close> for an optional string or number \<open>a\<close> and a default \<open>d\<close>: the empty string, 0,
  \<open>undefined\<close> and \<open>null\<close> are falsy.  \<open>xs?.[0]\<close> for an optional array.\<close>

definition strOr :: "string option \<Rightarrow> string \<Rightarrow> string" where
  "strOr a d = (case a of None \<Rightarrow> d | Some s \<Rightarrow> if s = [] then d else s)"

definition intOr :: "int option \<Rightarrow> int \<Rightarrow> int" where
  "intOr a d = (case a of None \<Rightarrow> d | Some n \<Rightarrow> if n = 0 then d else n)"

definition first :: "'a list option \<Rightarrow> 'a option" where
  "first xs = (case xs of Some (x # _) \<Rightarrow> Some x | _ \<Rightarrow> None)"

section \<open>Lookup adapters (academicSearch.js)\<close>

subsection \<open>CrossRef\<close>

text \<open>An entry of \<open>message.items\<close>; \<open>cr_published_date_parts\<close> is \<open>published['date-parts']\<close>, whose
  numbers may be \<open>null\<close>.\<close>

record crossrefAuthor =
  given :: "string option"
  family :: "string option"

record crossrefItem =
  cr_title :: "string list option"
  cr_author :: "crossrefAuthor list option"
  cr_published_date_parts :: "int option list list option"
  cr_container_title :: "string list option"
  cr_abstract :: "string option"
  cr_DOI :: "string option"
  cr_type :: "string option"
  cr_volume :: "string option"
  cr_issue :: "string option"
  cr_page :: "string option"
  cr_publisher :: "string option"
  cr_URL :: "string option"
  cr_ISSN :: "string list option"
  cr_ISBN :: "string list option"
  cr_language :: "string option"
  cr_references_count :: "int option"
  cr_is_referenced_by_count :: "int option"

text \<open>
  \<^verbatim>\<open>
  authors: item.author?.map(a => {
      const given = a.given || '';
      const family = a.family || '';
      return family ? `${family}, ${given}`.trim() : given;
  }).filter(Boolean) || [],
  \<close>
\<close>

definition crossrefAuthorName :: "crossrefAuthor \<Rightarrow> string" where
  "crossrefAuthorName a =
     (let given = strOr (given a) []; family = strOr (family a) []
      in if family \<noteq> [] then trim (family @ '', '' @ given) else given)"

definition crossrefAuthors :: "crossrefAuthor list option \<Rightarrow> string list" where
  "crossrefAuthors author =
     (case author of None \<Rightarrow> [] | Some as \<Rightarrow> filter (\<lambda>n. n \<noteq> []) (map crossrefAuthorName as))"

text \<open>The object \<open>searchCrossRef\<close> returns for the first item.\<close>

definition crossrefRecord :: "int \<Rightarrow> crossrefItem \<Rightarrow> metadataRecord" where
  "crossrefRecord currentYear item =
     \<lparr>title = Some (strOr (first (cr_title item)) []),
      authors = Some (crossrefAuthors (cr_author item)),
      year = Some (intOr (case first (cr_published_date_parts item) of
                            Some (y # _) \<Rightarrow> y | _ \<Rightarrow> None) currentYear),
      journal = Some (strOr (first (cr_container_title item)) []),
      abstract = Some (strOr (Some (cleanAbstract (cr_abstract item))) []),
      doi = Some (strOr (cr_DOI item) []),
      type = Some (strOr (cr_type item) ''journal-article''),
      volume = Some (strOr (cr_volume item) []),
      issue = Some (strOr (cr_issue item) []),
      pages = Some (strOr (cr_page item) []),
      publisher = Some (strOr (cr_publisher item) []),
      url = Some (strOr (cr_URL item)
                    (case cr_DOI item of
                       None \<Rightarrow> []
                     | Some d \<Rightarrow> if d = [] then [] else ''https://doi.org/'' @ d)),
      issn = Some (strOr (first (cr_ISSN item)) []),
      isbn = Some (strOr (first (cr_ISBN item)) []),
      language = Some (strOr (cr_language item) []),
      references = Some (intOr (cr_references_count item) 0),
      citations = Some (intOr (cr_is_referenced_by_count item) 0),
      source = Some ''CrossRef'',
      journalRanking = None\<rparr>"

subsection \<open>OpenAlex\<close>

record oaAuthor =
  oa_display_name :: "string option"

record oaAuthorship =
  oa_author :: "oaAuthor option"

record oaSource =
  src_display_name :: "string option"
  src_host_organization_name :: "string option"
  src_issn_l :: "string option"

record oaLocation =
  loc_source :: "oaSource option"
  loc_landing_page_url :: "string option"

record oaBiblio =
  bib_volume :: "string option"
  bib_issue :: "string option"
  bib_first_page :: "string option"
  bib_last_page :: "string option"

text \<open>An entry of \<open>results\<close>; the inverted index is given as \<open>Object.entries\<close> lists it.\<close>

record openAlexItem =
  oa_title :: "string option"
  oa_authorships :: "oaAuthorship list option"
  oa_publication_year :: "int option"
  oa_primary_location :: "oaLocation option"
  oa_abstract_inverted_index :: "(string \<times> nat list) list option"
  oa_doi :: "string option"
  oa_type :: "string option"
  oa_biblio :: "oaBiblio option"
  oa_language :: "string option"
  oa_referenced_works_count :: "int option"
  oa_cited_by_count :: "int option"

text \<open>
  \<^verbatim>\<open>
  function reconstructAbstract(invertedIndex) {
      try {
          const words = [];
          for (const [word, positions] of Object.entries(invertedIndex)) {
              for (const pos of positions) {
                  words[pos] = word;
              }
          }
          return words.filter(Boolean).join(' ').slice(0, 1000);
      } catch (error) { return ''; }
  }
  \<close>
  The array \<open>words\<close> is a list of optional strings, \<open>None\<close> for a hole; an assignment beyond
  the end extends it.
\<close>

definition setAt :: "string option list \<Rightarrow> nat \<Rightarrow> string \<Rightarrow> string option list" where
  "setAt words pos word =
     (if pos < length words then words[pos := Some word]
      else words @ replicate (pos - length words) None @ [Some word])"

fun joinWith :: "string \<Rightarrow> string list \<Rightarrow> string" where
  "joinWith sep [] = []"
| "joinWith sep [w] = w"
| "joinWith sep (w # v # ws) = w @ sep @ joinWith sep (v # ws)"

definition reconstructAbstract :: "(string \<times> nat list) list \<Rightarrow> string" where
  "reconstructAbstract invertedIndex =
     (let words = foldl (\<lambda>words (word, positions). foldl (\<lambda>words pos. setAt words pos word) words positions)
                    [] invertedIndex
      in take 1000 (joinWith '' ''
           (filter (\<lambda>w. w \<noteq> []) (map (\<lambda>w. case w of None \<Rightarrow> [] | Some s \<Rightarrow> s) words))))"

text \<open>\<open>s.replace(lit, rep)\<close> with a string pattern: the first occurrence only.\<close>

fun replaceFirst :: "string \<Rightarrow> string \<Rightarrow> string \<Rightarrow> string" where
  "replaceFirst p r [] = (if p = [] then r else [])"
| "replaceFirst p r (c # cs) =
     (if startsWith p (c # cs) then r @ drop (length p) (c # cs) else c # replaceFirst p r cs)"

definition openAlexAuthors :: "oaAuthorship list option \<Rightarrow> string list" where
  "openAlexAuthors authorships =
     (case authorships of
        None \<Rightarrow> []
      | Some as \<Rightarrow>
          filter (\<lambda>n. n \<noteq> [])
            (map (\<lambda>a. strOr (case oa_author a of None \<Rightarrow> None | Some au \<Rightarrow> oa_display_name au) []) as))"

definition openAlexRecord :: "int \<Rightarrow> openAlexItem \<Rightarrow> metadataRecord" where
  "openAlexRecord currentYear item =
     (let src = (case oa_primary_location item of None \<Rightarrow> None | Some l \<Rightarrow> loc_source l);
          first_page = (case oa_biblio item of None \<Rightarrow> None | Some b \<Rightarrow> bib_first_page b);
          last_page = (case oa_biblio item of None \<Rightarrow> None | Some b \<Rightarrow> bib_last_page b)
      in
     \<lparr>title = Some (strOr (oa_title item) []),
      authors = Some (openAlexAuthors (oa_authorships item)),
      year = Some (intOr (oa_publication_year item) currentYear),
      journal = Some (strOr (case src of None \<Rightarrow> None | Some s \<Rightarrow> src_display_name s) []),
      abstract = Some (case oa_abstract_inverted_index item of
                         None \<Rightarrow> []
                       | Some idx \<Rightarrow> cleanAbstract (Some (reconstructAbstract idx))),
      doi = Some (strOr (case oa_doi item of
                           None \<Rightarrow> None
                         | Some d \<Rightarrow> Some (replaceFirst ''https://doi.org/'' [] d)) []),
      type = Some (strOr (oa_type item) ''article''),
      volume = Some (strOr (case oa_biblio item of None \<Rightarrow> None | Some b \<Rightarrow> bib_volume b) []),
      issue = Some (strOr (case oa_biblio item of None \<Rightarrow> None | Some b \<Rightarrow> bib_issue b) []),
      pages = Some (if strOr first_page [] \<noteq> [] \<and> strOr last_page [] \<noteq> []
                    then strOr first_page [] @ ''-'' @ strOr last_page []
                    else strOr first_page []),
      publisher = Some (strOr (case src of None \<Rightarrow> None | Some s \<Rightarrow> src_host_organization_name s) []),
      url = Some (strOr (oa_doi item)
                    (strOr (case oa_primary_location item of
                              None \<Rightarrow> None
                            | Some l \<Rightarrow> loc_landing_page_url l) [])),
      issn = Some (strOr (case src of None \<Rightarrow> None | Some s \<Rightarrow> src_issn_l s) []),
      isbn = None,
      language = Some (strOr (oa_language item) []),
      references = Some (intOr (oa_referenced_works_count item) 0),
      citations = Some (intOr (oa_cited_by_count item) 0),
      source = Some ''OpenAlex'',
      journalRanking = None\<rparr>)"

subsection \<open>Semantic Scholar\<close>

record ssAuthor =
  ss_name :: "string option"

record ssVenue =
  pv_name :: "string option"
  pv_publisher :: "string option"
  pv_issn :: "string option"

record ssExternalIds =
  ext_DOI :: "string option"

record semanticScholarItem =
  ss_title :: "string option"
  ss_authors :: "ssAuthor list option"
  ss_year :: "int option"
  ss_publicationVenue :: "ssVenue option"
  ss_venue :: "string option"
  ss_abstract :: "string option"
  ss_externalIds :: "ssExternalIds option"
  ss_publicationTypes :: "string list option"
  ss_url :: "string option"
  ss_referenceCount :: "int option"
  ss_citationCount :: "int option"

definition semanticScholarAuthors :: "ssAuthor list option \<Rightarrow> string list" where
  "semanticScholarAuthors as =
     (case as of
        None \<Rightarrow> []
      | Some as \<Rightarrow> filter (\<lambda>n. n \<noteq> []) (map (\<lambda>a. strOr (ss_name a) []) as))"

definition semanticScholarRecord :: "int \<Rightarrow> semanticScholarItem \<Rightarrow> metadataRecord" where
  "semanticScholarRecord currentYear item =
     (let venue = ss_publicationVenue item;
          extDOI = (case ss_externalIds item of None \<Rightarrow> None | Some e \<Rightarrow> ext_DOI e)
      in
     \<lparr>title = Some (strOr (ss_title item) []),
      authors = Some (semanticScholarAuthors (ss_authors item)),
      year = Some (intOr (ss_year item) currentYear),
      journal = Some (strOr (case venue of None \<Rightarrow> None | Some v \<Rightarrow> pv_name v)
                        (strOr (ss_venue item) [])),
      abstract = Some (strOr (Some (cleanAbstract (ss_abstract item))) []),
      doi = Some (strOr extDOI []),
      type = Some (strOr (first (ss_publicationTypes item)) ''article''),
      volume = Some [],
      issue = Some [],
      pages = Some [],
      publisher = Some (strOr (case venue of None \<Rightarrow> None | Some v \<Rightarrow> pv_publisher v) []),
      url = Some (strOr (ss_url item)
                    (case extDOI of
                       None \<Rightarrow> []
                     | Some d \<Rightarrow> if d = [] then [] else ''https://doi.org/'' @ d)),
      issn = Some (strOr (case venue of None \<Rightarrow> None | Some v \<Rightarrow> pv_issn v) []),
      isbn = None,
      language = Some [],
      references = Some (intOr (ss_referenceCount item) 0),
      citations = Some (intOr (ss_citationCount item) 0),
      source = Some ''Semantic Scholar'',
      journalRanking = None\<rparr>)"

subsection \<open>The environment and the three searches\<close>

text \<open>
  What the outside world answers during one run: the year of the clock, and the response
  of each service to the request made for a title or a journal name.  The body of a search
  response is the list the adapter looks at (\<open>message.items\<close>, \<open>results\<close>, \<open>data\<close>), \<open>None\<close> when
  the answer has no such list.
\<close>

record env =
  currentYear :: int
  fetchCrossRef :: "string \<Rightarrow> crossrefItem list option fetched"
  fetchOpenAlex :: "string \<Rightarrow> openAlexItem list option fetched"
  fetchSemanticScholar :: "string \<Rightarrow> semanticScholarItem list option fetched"
  fetchSources :: "string \<Rightarrow> sourceItem list option fetched"

text \<open>
  The frame the three adapters share:
  \<^verbatim>\<open>
  try {
      const response = await fetch(url);
      if (!response.ok) { return null; }
      const data = await response.json();
      if (<list>?.length > 0) { const item = <list>[0]; return { ... }; }
      return null;
  } catch (error) { return null; }
  \<close>
\<close>

definition firstItem :: "'a list option fetched \<Rightarrow> 'a option" where
  "firstItem response =
     (case response of
        NetworkError \<Rightarrow> None
      | Response status body \<Rightarrow>
          if \<not> ok status then None
          else (case body of
                  None \<Rightarrow> None
                | Some data \<Rightarrow> (case data of Some (item # _) \<Rightarrow> Some item | _ \<Rightarrow> None)))"

definition searchCrossRef :: "env \<Rightarrow> string \<Rightarrow> call list \<Rightarrow> metadataRecord option \<times> call list" where
  "searchCrossRef e t calls =
     (map_option (crossrefRecord (currentYear e)) (firstItem (fetchCrossRef e t)),
      calls @ [CrossRefWorks t])"

definition searchOpenAlex :: "env \<Rightarrow> string \<Rightarrow> call list \<Rightarrow> metadataRecord option \<times> call list" where
  "searchOpenAlex e t calls =
     (map_option (openAlexRecord (currentYear e)) (firstItem (fetchOpenAlex e t)),
      calls @ [OpenAlexWorks t])"

definition searchSemanticScholar :: "env \<Rightarrow> string \<Rightarrow> call list \<Rightarrow> metadataRecord option \<times> call list" where
  "searchSemanticScholar e t calls =
     (map_option (semanticScholarRecord (currentYear e)) (firstItem (fetchSemanticScholar e t)),
      calls @ [SemanticScholarSearch t])"

text \<open>
  \<^verbatim>\<open>
  export async function searchAcademicDatabases(title) {
      if (!title || title.trim().length < 10) { return null; }
      let result = await searchCrossRef(title);
      if (result) { return result; }
      result = await searchOpenAlex(title);
      if (result) { return result; }
      result = await searchSemanticScholar(title);
      if (result) { return result; }
      return null;
  }
  \<close>
\<close>

definition searchAcademicDatabases ::
  "env \<Rightarrow> string \<Rightarrow> call list \<Rightarrow> metadataRecord option \<times> call list" where
  "searchAcademicDatabases e t calls =
     (if t = [] \<or> length (trim t) < 10 then (None, calls)
      else case searchCrossRef e t calls of
             (Some result, calls1) \<Rightarrow> (Some result, calls1)
           | (None, calls1) \<Rightarrow>
               (case searchOpenAlex e t calls1 of
                  (Some result, calls2) \<Rightarrow> (Some result, calls2)
                | (None, calls2) \<Rightarrow>
                    (case searchSemanticScholar e t calls2 of
                       (Some result, calls3) \<Rightarrow> (Some result, calls3)
                     | (None, calls3) \<Rightarrow> (None, calls3))))"

text \<open>\<open>mapPublicationType\<close>: \<open>typeMap[type?.toLowerCase()] || 'Journal Article'\<close>.  Keys inherited
  from \<open>Object.prototype\<close> are not modelled.\<close>

definition typeMap :: "(string \<times> string) list" where
  "typeMap =
     [(''journal-article'', ''Journal Article''),
      (''article'', ''Journal Article''),
      (''proceedings-article'', ''Conference Paper''),
      (''book-chapter'', ''Book Chapter''),
      (''dissertation'', ''Thesis''),
      (''report'', ''Technical Report''),
      (''posted-content'', ''Preprint''),
      (''preprint'', ''Preprint'')]"

definition mapPublicationType :: "string option \<Rightarrow> string" where
  "mapPublicationType t =
     (case t of
        None \<Rightarrow> ''Journal Article''
      | Some s \<Rightarrow> (case map_of typeMap (toLowerCase s) of
                    Some v \<Rightarrow> v
                  | None \<Rightarrow> ''Journal Article''))"

text \<open>An environment for the examples: CrossRef knows one title, OpenAlex answers every
  search with one work, Semantic Scholar and the OpenAlex source search are unreachable.\<close>

definition exampleCrossrefItem :: crossrefItem where
  "exampleCrossrefItem =
     \<lparr>cr_title = Some [''Attention Is All You Need''], cr_author = None,
      cr_published_date_parts = Some [[Some 2017, Some 6]], cr_container_title = None,
      cr_abstract = None, cr_DOI = Some ''10.5555/3295222'', cr_type = Some ''journal-article'',
      cr_volume = Some ''30'', cr_issue = None, cr_page = None, cr_publisher = None,
      cr_URL = None, cr_ISSN = None, cr_ISBN = None, cr_language = None,
      cr_references_count = None, cr_is_referenced_by_count = None\<rparr>"

definition exampleOpenAlexItem :: openAlexItem where
  "exampleOpenAlexItem =
     \<lparr>oa_title = Some ''Deep Learning Methods'', oa_authorships = None,
      oa_publication_year = None, oa_primary_location = None,
      oa_abstract_inverted_index = None, oa_doi = Some ''https://doi.org/10.5555/dl'',
      oa_type = None, oa_biblio = None, oa_language = None,
      oa_referenced_works_count = None, oa_cited_by_count = None\<rparr>"

definition exampleEnv :: env where
  "exampleEnv =
     \<lparr>currentYear = 2024,
      fetchCrossRef = (\<lambda>t.
         if t = ''Attention Is All You Need'' then Response 200 (Some (Some [exampleCrossrefItem]))
         else Response 404 None),
      fetchOpenAlex = (\<lambda>t. Response 200 (Some (Some [exampleOpenAlexItem]))),
      fetchSemanticScholar = (\<lambda>t. NetworkError),
      fetchSources = (\<lambda>n. NetworkError)\<rparr>"

text \<open>
  Claim C3: for a title whose trimmed length is below 10, searchAcademicDatabases returns
  nothing and makes no call; for a longer title it calls CrossRef, then OpenAlex, then
  Semantic Scholar, returns the first result that is there, and makes no call after the one
  that gave it.  The log of calls grows by exactly the calls made.
\<close>

theorem searchAcademicDatabases_short_circuit:
  "(length (trim t) < 10 \<longrightarrow> searchAcademicDatabases e t calls = (None, calls))
   \<and> (10 \<le> length (trim t) \<longrightarrow>
        searchAcademicDatabases e t calls =
          (case fst (searchCrossRef e t []) of
             Some r \<Rightarrow> (Some r, calls @ [CrossRefWorks t])
           | None \<Rightarrow>
               (case fst (searchOpenAlex e t []) of
                  Some r \<Rightarrow> (Some r, calls @ [CrossRefWorks t, OpenAlexWorks t])
                | None \<Rightarrow>
                    (fst (searchSemanticScholar e t []),
                     calls @ [CrossRefWorks t, OpenAlexWorks t, SemanticScholarSearch t]))))"
proof (intro conjI impI)
  assume "length (trim t) < 10"
  then show "searchAcademicDatabases e t calls = (None, calls)"
    by (simp add: searchAcademicDatabases_def)
next
  assume l: "10 \<le> length (trim t)"
  then have "trim t \<noteq> []" by auto
  then have "t \<noteq> []" by (auto simp: trim_def trimEnd_def)
  with l show "searchAcademicDatabases e t calls =
          (case fst (searchCrossRef e t []) of
             Some r \<Rightarrow> (Some r, calls @ [CrossRefWorks t])
           | None \<Rightarrow>
               (case fst (searchOpenAlex e t []) of
                  Some r \<Rightarrow> (Some r, calls @ [CrossRefWorks t, OpenAlexWorks t])
                | None \<Rightarrow>
                    (fst (searchSemanticScholar e t []),
                     calls @ [CrossRefWorks t, OpenAlexWorks t, SemanticScholarSearch t])))"
    by (simp add: searchAcademicDatabases_def searchCrossRef_def searchOpenAlex_def
          searchSemanticScholar_def split: option.splits)
qed

theorem searchAcademicDatabases_short_circuit_witness:
  "length (trim ''  ab '') < 10
   \<and> searchAcademicDatabases exampleEnv ''  ab '' [] = (None, [])
   \<and> 10 \<le> length (trim ''Attention Is All You Need'')
   \<and> snd (searchAcademicDatabases exampleEnv ''Attention Is All You Need'' [])
       = [CrossRefWorks ''Attention Is All You Need'']
   \<and> map_option source (fst (searchAcademicDatabases exampleEnv ''Attention Is All You Need'' []))
       = Some (Some ''CrossRef'')
   \<and> 10 \<le> length (trim ''Deep Learning Methods'')
   \<and> snd (searchAcademicDatabases exampleEnv ''Deep Learning Methods'' [])
       = [CrossRefWorks ''Deep Learning Methods'', OpenAlexWorks ''Deep Learning Methods'']
   \<and> map_option source (fst (searchAcademicDatabases exampleEnv ''Deep Learning Methods'' []))
       = Some (Some ''OpenAlex'')"
proof -
  have h1: "length (trim ''  ab '') < 10"
    by code_simp
  have h2: "10 \<le> length (trim ''Attention Is All You Need'')"
    by code_simp
  have h3: "10 \<le> length (trim ''Deep Learning Methods'')"
    by code_simp
  have c2: "\<exists>r. fst (searchCrossRef exampleEnv ''Attention Is All You Need'' []) = Some r \<and> source r = Some ''CrossRef''"
    by (simp add: exampleEnv_def searchCrossRef_def firstItem_def ok_def crossrefRecord_def)
  have c3: "fst (searchCrossRef exampleEnv ''Deep Learning Methods'' []) = None"
    by (simp add: exampleEnv_def searchCrossRef_def firstItem_def ok_def)
  have o3: "\<exists>r. fst (searchOpenAlex exampleEnv ''Deep Learning Methods'' []) = Some r \<and> source r = Some ''OpenAlex''"
    by (simp add: exampleEnv_def searchOpenAlex_def firstItem_def ok_def openAlexRecord_def Let_def)
  have r1: "searchAcademicDatabases exampleEnv ''  ab '' [] = (None, [])"
    using searchAcademicDatabases_short_circuit [of "''  ab ''" exampleEnv "[]", THEN conjunct1, rule_format, OF h1] .
  from c2 obtain r where r: "fst (searchCrossRef exampleEnv ''Attention Is All You Need'' []) = Some r"
    and sr: "source r = Some ''CrossRef''" by blast
  have r2: "searchAcademicDatabases exampleEnv ''Attention Is All You Need'' []
            = (Some r, [CrossRefWorks ''Attention Is All You Need''])"
    using searchAcademicDatabases_short_circuit [of "''Attention Is All You Need''" exampleEnv "[]",
        THEN conjunct2, rule_format, OF h2]
    unfolding r by simp
  from o3 obtain r' where r': "fst (searchOpenAlex exampleEnv ''Deep Learning Methods'' []) = Some r'"
    and sr': "source r' = Some ''OpenAlex''" by blast
  have r3: "searchAcademicDatabases exampleEnv ''Deep Learning Methods'' []
            = (Some r', [CrossRefWorks ''Deep Learning Methods'', OpenAlexWorks ''Deep Learning Methods''])"
    using searchAcademicDatabases_short_circuit [of "''Deep Learning Methods''" exampleEnv "[]",
        THEN conjunct2, rule_format, OF h3]
    unfolding c3 r' by simp
  show ?thesis
    unfolding r1 r2 r3 using h1 h2 h3 sr sr' by simp
qed

section \<open>Text heuristics (pdfMetadata.js)\<close>





subsection \<open>extractAuthors\<close>













subsection \<open>extractAbstract\<close>









subsection \<open>extractJournal\<close>









section \<open>extractPDFMetadata (pdfMetadata.js)\<close>








text \<open>\<open>a || b\<close> where both sides may be absent.\<close>

definition strOrElse :: "string option \<Rightarrow> string option \<Rightarrow> string option" where
  "strOrElse a b = (case a of None \<Rightarrow> b | Some s \<Rightarrow> if s = [] then b else Some s)"

definition intOrElse :: "int option \<Rightarrow> int option \<Rightarrow> int option" where
  "intOrElse a b = (case a of None \<Rightarrow> b | Some n \<Rightarrow> if n = 0 then b else Some n)"

text \<open>
  The object built when the search has returned \<open>academicData\<close>:
  \<^verbatim>\<open>
  const journalName = academicData.journal || pdfExtractedData.journal;
  ...
  return {
      title: academicData.title || pdfExtractedData.title,
      authors: academicData.authors?.length > 0 ? academicData.authors : pdfExtractedData.authors,
      year: academicData.year || pdfExtractedData.year,
      abstract: academicData.abstract || pdfExtractedData.abstract,
      doi: academicData.doi || pdfExtractedData.doi,
      journal: journalName,
      type: mapPublicationType(academicData.type),
      source: academicData.source,
      journalRanking: journalRankingTag
  };
  \<close>
\<close>

definition mergeMetadata ::
  "metadataRecord \<Rightarrow> metadataRecord \<Rightarrow> string option \<Rightarrow> metadataRecord" where
  "mergeMetadata academicData pdfData journalRankingTag =
     \<lparr>title = strOrElse (title academicData) (title pdfData),
      authors = (case authors academicData of
                   None \<Rightarrow> authors pdfData
                 | Some as \<Rightarrow> if 0 < length as then Some as else authors pdfData),
      year = intOrElse (year academicData) (year pdfData),
      journal = strOrElse (journal academicData) (journal pdfData),
      abstract = strOrElse (abstract academicData) (abstract pdfData),
      doi = strOrElse (doi academicData) (doi pdfData),
      type = Some (mapPublicationType (type academicData)),
      volume = None, issue = None, pages = None, publisher = None, url = None,
      issn = None, isbn = None, language = None, references = None, citations = None,
      source = source academicData,
      journalRanking = journalRankingTag\<rparr>"





section \<open>The shape of DOI values\<close>











section \<open>Properties of the pipeline\<close>

text \<open>The object \<open>{}\<close>, and a PDF for the examples: five pages with the same two text items,
  a title, two authors and a creation date in its \<open>info\<close> dictionary; a file that can be read
  and one that cannot.\<close>

definition emptyRecord :: metadataRecord where
  "emptyRecord =
     \<lparr>title = None, authors = None, year = None, journal = None, abstract = None, doi = None,
      type = None, volume = None, issue = None, pages = None, publisher = None, url = None,
      issn = None, isbn = None, language = None, references = None, citations = None,
      source = None, journalRanking = None\<rparr>"



















lemma intOr_nonzero: "d \<noteq> 0 \<Longrightarrow> intOr a d \<noteq> 0"
  by (simp add: intOr_def split: option.splits)

lemma crossref_year: "thisYear \<noteq> 0 \<Longrightarrow> \<exists>y. year (crossrefRecord thisYear item) = Some y \<and> y \<noteq> 0"
  by (simp add: crossrefRecord_def intOr_nonzero)

lemma openAlex_year: "thisYear \<noteq> 0 \<Longrightarrow> \<exists>y. year (openAlexRecord thisYear item) = Some y \<and> y \<noteq> 0"
  by (simp add: openAlexRecord_def Let_def intOr_nonzero)

lemma semanticScholar_year:
  "thisYear \<noteq> 0 \<Longrightarrow> \<exists>y. year (semanticScholarRecord thisYear item) = Some y \<and> y \<noteq> 0"
  by (simp add: semanticScholarRecord_def Let_def intOr_nonzero)

lemma searchCrossRef_year:
  assumes "currentYear e \<noteq> 0" and "searchCrossRef e t calls = (Some r, calls')"
  shows "\<exists>y. year r = Some y \<and> y \<noteq> 0"
proof -
  from assms(2) obtain item where "r = crossrefRecord (currentYear e) item"
    by (auto simp: searchCrossRef_def)
  with assms(1) show ?thesis by (simp add: crossref_year)
qed

lemma searchOpenAlex_year:
  assumes "currentYear e \<noteq> 0" and "searchOpenAlex e t calls = (Some r, calls')"
  shows "\<exists>y. year r = Some y \<and> y \<noteq> 0"
proof -
  from assms(2) obtain item where "r = openAlexRecord (currentYear e) item"
    by (auto simp: searchOpenAlex_def)
  with assms(1) show ?thesis by (simp add: openAlex_year)
qed

lemma searchSemanticScholar_year:
  assumes "currentYear e \<noteq> 0" and "searchSemanticScholar e t calls = (Some r, calls')"
  shows "\<exists>y. year r = Some y \<and> y \<noteq> 0"
proof -
  from assms(2) obtain item where "r = semanticScholarRecord (currentYear e) item"
    by (auto simp: searchSemanticScholar_def)
  with assms(1) show ?thesis by (simp add: semanticScholar_year)
qed

lemma searchAcademicDatabases_from:
  assumes "searchAcademicDatabases e t calls = (Some r, calls')"
  shows "(\<exists>c c'. searchCrossRef e t c = (Some r, c')) \<or> (\<exists>c c'. searchOpenAlex e t c = (Some r, c'))
         \<or> (\<exists>c c'. searchSemanticScholar e t c = (Some r, c'))"
proof -
  obtain r1 c1 where x1: "searchCrossRef e t calls = (r1, c1)" by (cases "searchCrossRef e t calls")
  obtain r2 c2 where x2: "searchOpenAlex e t c1 = (r2, c2)" by (cases "searchOpenAlex e t c1")
  obtain r3 c3 where x3: "searchSemanticScholar e t c2 = (r3, c3)" by (cases "searchSemanticScholar e t c2")
  from assms have "r1 = Some r \<or> r2 = Some r \<or> r3 = Some r"
    unfolding searchAcademicDatabases_def x1 by (auto simp: x2 x3 split: if_splits option.splits)
  with x1 x2 x3 show ?thesis by blast
qed

text \<open>
  Claim C10: every record returned by the CrossRef, OpenAlex or Semantic Scholar search has
  a year that is present and not 0 (the current year stands in when the remote answer has
  none; the clock's year is taken to be other than 0), so the merge never falls back to the
  year of the PDF heuristics for a hit that came from these adapters.
\<close>

theorem adapter_year_present:
  "currentYear e \<noteq> 0 \<longrightarrow>
     (searchCrossRef e t calls = (Some r, calls') \<longrightarrow> (\<exists>y. year r = Some y \<and> y \<noteq> 0))
   \<and> (searchOpenAlex e t calls = (Some r, calls') \<longrightarrow> (\<exists>y. year r = Some y \<and> y \<noteq> 0))
   \<and> (searchSemanticScholar e t calls = (Some r, calls') \<longrightarrow> (\<exists>y. year r = Some y \<and> y \<noteq> 0))
   \<and> (searchAcademicDatabases e t calls = (Some r, calls') \<longrightarrow>
        (\<exists>y. year r = Some y \<and> y \<noteq> 0 \<and> year (mergeMetadata r pdfData tag) = Some y))"
proof (intro conjI impI)
  assume "currentYear e \<noteq> 0" and "searchCrossRef e t calls = (Some r, calls')"
  then show "\<exists>y. year r = Some y \<and> y \<noteq> 0" by (rule searchCrossRef_year)
next
  assume "currentYear e \<noteq> 0" and "searchOpenAlex e t calls = (Some r, calls')"
  then show "\<exists>y. year r = Some y \<and> y \<noteq> 0" by (rule searchOpenAlex_year)
next
  assume "currentYear e \<noteq> 0" and "searchSemanticScholar e t calls = (Some r, calls')"
  then show "\<exists>y. year r = Some y \<and> y \<noteq> 0" by (rule searchSemanticScholar_year)
next
  assume c: "currentYear e \<noteq> 0" and s: "searchAcademicDatabases e t calls = (Some r, calls')"
  from s have "(\<exists>c c'. searchCrossRef e t c = (Some r, c')) \<or> (\<exists>c c'. searchOpenAlex e t c = (Some r, c'))
         \<or> (\<exists>c c'. searchSemanticScholar e t c = (Some r, c'))"
    by (rule searchAcademicDatabases_from)
  with c have "\<exists>y. year r = Some y \<and> y \<noteq> 0"
    using searchCrossRef_year searchOpenAlex_year searchSemanticScholar_year by blast
  then obtain y where y: "year r = Some y" "y \<noteq> 0" by blast
  then have "year (mergeMetadata r pdfData tag) = Some y"
    by (simp add: mergeMetadata_def intOrElse_def)
  with y show "\<exists>y. year r = Some y \<and> y \<noteq> 0 \<and> year (mergeMetadata r pdfData tag) = Some y"
    by blast
qed

theorem adapter_year_present_witness:
  "currentYear exampleEnv \<noteq> 0
   \<and> searchAcademicDatabases exampleEnv ''Deep Learning Methods'' []
       = (Some (openAlexRecord 2024 exampleOpenAlexItem),
          [CrossRefWorks ''Deep Learning Methods'', OpenAlexWorks ''Deep Learning Methods''])
   \<and> oa_publication_year exampleOpenAlexItem = None
   \<and> year (openAlexRecord 2024 exampleOpenAlexItem) = Some 2024
   \<and> (\<exists>y. year (openAlexRecord 2024 exampleOpenAlexItem) = Some y \<and> y \<noteq> 0
          \<and> year (mergeMetadata (openAlexRecord 2024 exampleOpenAlexItem)
                   (emptyRecord\<lparr>year := Some 1999\<rparr>) None) = Some y)"
proof -
  have h0: "currentYear exampleEnv \<noteq> 0"
    by (simp add: exampleEnv_def)
  have t: "trim ''Deep Learning Methods'' = ''Deep Learning Methods''"
    by code_simp
  have h1: "searchAcademicDatabases exampleEnv ''Deep Learning Methods'' []
       = (Some (openAlexRecord 2024 exampleOpenAlexItem),
          [CrossRefWorks ''Deep Learning Methods'', OpenAlexWorks ''Deep Learning Methods''])"
    by (simp add: searchAcademicDatabases_def t searchCrossRef_def searchOpenAlex_def exampleEnv_def
          firstItem_def ok_def)
  have n: "oa_publication_year exampleOpenAlexItem = None"
    by (simp add: exampleOpenAlexItem_def)
  have y: "year (openAlexRecord 2024 exampleOpenAlexItem) = Some 2024"
    by (simp add: openAlexRecord_def Let_def n intOr_def)
  from adapter_year_present [THEN mp, OF h0, THEN conjunct2, THEN conjunct2, THEN conjunct2,
        rule_format, OF h1]
  have "\<exists>y. year (openAlexRecord 2024 exampleOpenAlexItem) = Some y \<and> y \<noteq> 0
          \<and> year (mergeMetadata (openAlexRecord 2024 exampleOpenAlexItem)
                   (emptyRecord\<lparr>year := Some 1999\<rparr>) None) = Some y" .
  with h0 h1 n y show ?thesis by blast
qed

section \<open>The AI summarizer (cerebrasService.js)\<close>















end
